theory Spec2Isabelle
  imports Main "HOL-Library.Word"
begin

unbundle bit_operations_syntax

section \<open>Bytes, bit strings and text\<close>

type_synonym byte = "8 word"
type_synonym bytes = "byte list"

text \<open>A Go string is a byte sequence; \<open>[]byte(s)\<close> is the conversion below.\<close>

definition string_bytes :: "string \<Rightarrow> bytes" where
  "string_bytes s = map (\<lambda>c. of_nat (of_char c)) s"

definition bytes_to_nat :: "bytes \<Rightarrow> nat" where
  "bytes_to_nat bs = foldl (\<lambda>a b. a * 256 + unat b) 0 bs"

definition nat_to_bytes :: "nat \<Rightarrow> nat \<Rightarrow> bytes" where
  \<comment> \<open>big-endian, exactly \<open>w\<close> bytes (the value is reduced modulo \<open>256 ^ w\<close>)\<close>
  "nat_to_bytes w n = map (\<lambda>i. of_nat (n div 256 ^ i)) (rev [0..<w])"

definition bits_of_nat :: "nat \<Rightarrow> nat \<Rightarrow> bool list" where
  \<comment> \<open>big-endian, exactly \<open>w\<close> bits\<close>
  "bits_of_nat w n = map (\<lambda>i. bit n i) (rev [0..<w])"

definition nat_of_bits :: "bool list \<Rightarrow> nat" where
  "nat_of_bits bs = foldl (\<lambda>a b. 2 * a + (if b then 1 else 0)) 0 bs"

definition bits_of_bytes :: "bytes \<Rightarrow> bool list" where
  "bits_of_bytes bs = concat (map (\<lambda>b. bits_of_nat 8 (unat b)) bs)"

fun groups :: "nat \<Rightarrow> 'a list \<Rightarrow> 'a list list" where
  "groups n xs = (if n = 0 \<or> xs = [] then [] else take n xs # groups n (drop n xs))"

declare groups.simps [simp del]

definition bytes_of_bits :: "bool list \<Rightarrow> bytes" where
  "bytes_of_bits bs = map (\<lambda>g. of_nat (nat_of_bits g)) (groups 8 bs)"

subsection \<open>encoding/hex\<close>

definition hextable :: string where
  "hextable = ''0123456789abcdef''"

definition hex_EncodeToString :: "bytes \<Rightarrow> string" where
  "hex_EncodeToString src =
     concat (map (\<lambda>v. [hextable ! (unat v div 16), hextable ! (unat v mod 16)]) src)"

subsection \<open>strings.Fields and strings.Join\<close>

definition isSpace :: "char \<Rightarrow> bool" where
  \<comment> \<open>the ASCII white space of \<open>strings.Fields\<close>: tab, LF, VT, FF, CR and space\<close>
  "isSpace c = (of_char c \<in> {9, 10, 11, 12, 13, 32 :: nat})"

function Fields :: "string \<Rightarrow> string list" where
  "Fields s =
     (case dropWhile isSpace s of
        [] \<Rightarrow> []
      | c # cs \<Rightarrow> takeWhile (\<lambda>x. \<not> isSpace x) (c # cs)
                 # Fields (dropWhile (\<lambda>x. \<not> isSpace x) (c # cs)))"
  by pat_completeness auto
termination
proof (relation "measure length")
  show "wf (measure length)" by simp
next
  fix s :: string and c cs
  assume h: "dropWhile isSpace s = c # cs"
  have nsp: "\<not> isSpace c"
    using h hd_dropWhile [of isSpace s] by simp
  have "length (dropWhile (\<lambda>x. \<not> isSpace x) (c # cs)) \<le> length cs"
    using nsp by (simp add: length_dropWhile_le)
  also have "length cs < length (dropWhile isSpace s)"
    using h by simp
  also have "\<dots> \<le> length s"
    by (rule length_dropWhile_le)
  finally show "(dropWhile (\<lambda>x. \<not> isSpace x) (c # cs), s) \<in> measure length"
    by simp
qed

declare Fields.simps [simp del]

fun Join :: "string list \<Rightarrow> string \<Rightarrow> string" where
  "Join [] sep = []"
| "Join [w] sep = w"
| "Join (w # ws) sep = w @ sep @ Join ws sep"

section \<open>Primitives taken as parameters\<close>

text \<open>
  The hash functions, the key-stretching function, the scalar multiplication of
  secp256k1 and the 2048-word list are supplied by vetted libraries. They are
  parameters of the development.
\<close>

record prims =
  sha256 :: "bytes \<Rightarrow> bytes"
  ripemd160 :: "bytes \<Rightarrow> bytes"
  hmac_sha512 :: "bytes \<Rightarrow> bytes \<Rightarrow> bytes"
  pbkdf2_hmac_sha512 :: "bytes \<Rightarrow> bytes \<Rightarrow> nat \<Rightarrow> nat \<Rightarrow> bytes"
  secp256k1_pubkey :: "nat \<Rightarrow> bytes"
  wordlist :: "string list"

text \<open>
  \<open>hmac_sha512 P key data\<close>; \<open>pbkdf2_hmac_sha512 P password salt iterations keylen\<close>;
  \<open>secp256k1_pubkey P k\<close> is the 33-byte compressed serialisation of the point \<open>k * G\<close>.
\<close>

definition secp256k1_N :: nat where
  "secp256k1_N = 0xFFFFFFFFFFFFFFFFFFFFFFFFFFFFFFFEBAAEDCE6AF48A03BBFD25E8CD0364141"

text \<open>
  The secure random source is the one piece of state: the bytes it can still
  deliver. A read of \<open>n\<close> bytes consumes them, and fails when the source cannot
  deliver that many.
\<close>

type_synonym rand_source = bytes

datatype lib_error =
    ErrEntropySource
  | ErrEntropyLengthInvalid
  | ErrUnusableSeed
  | ErrInvalidChild
  | ErrInvalidKeyLength
  | ErrInvalidHashLength

definition rand_Read :: "nat \<Rightarrow> rand_source \<Rightarrow> (lib_error + bytes) \<times> rand_source" where
  "rand_Read n src =
     (if length src < n then (Inl ErrEntropySource, src)
      else (Inr (take n src), drop n src))"

section \<open>Mnemonic codec and seed derivation\<close>

definition index_of :: "'a list \<Rightarrow> 'a \<Rightarrow> nat" where
  "index_of xs x = length (takeWhile (\<lambda>y. y \<noteq> x) xs)"

text \<open>
  Modelled from the spec: \<open>GenerateEntropy(bits)\<close> of the mnemonic library
  (\<open>bip39.NewEntropy\<close>), whose code is not part of the repository's sources:
  \<open>bits/8\<close> bytes from the secure random source; it fails only if the source
  is exhausted or unavailable.
\<close>

definition bip39_NewEntropy :: "nat \<Rightarrow> rand_source \<Rightarrow> (lib_error + bytes) \<times> rand_source" where
  "bip39_NewEntropy bitSize src = rand_Read (bitSize div 8) src"

text \<open>
  Modelled from the spec: \<open>EntropyToMnemonic(entropy)\<close> (\<open>bip39.NewMnemonic\<close>):
  the SHA-256 of the entropy, its first \<open>bits/32\<close> bits appended to the entropy
  bit stream, the stream split into 11-bit groups, each group mapped to a word
  of the list. Well-formed entropy has 128 to 256 bits, a multiple of 32.
\<close>

definition bip39_NewMnemonic :: "prims \<Rightarrow> bytes \<Rightarrow> lib_error + string" where
  "bip39_NewMnemonic P entropy =
     (let bitSize = 8 * length entropy in
      if bitSize mod 32 \<noteq> 0 \<or> bitSize < 128 \<or> 256 < bitSize
      then Inl ErrEntropyLengthInvalid
      else
        let checksum = take (bitSize div 32) (bits_of_bytes (sha256 P entropy));
            stream = bits_of_bytes entropy @ checksum;
            ws = map (\<lambda>g. wordlist P ! nat_of_bits g) (groups 11 stream)
        in Inr (Join ws '' ''))"

text \<open>
  Modelled from the spec: \<open>ValidateMnemonic(words)\<close> (\<open>bip39.IsMnemonicValid\<close>):
  reverse the mapping, recompute the checksum, compare. It rejects a wrong
  word count (the counts of well-formed entropy are 12, 15, 18, 21 and 24), a
  word that is not in the list, and a checksum mismatch.
\<close>

definition bip39_IsMnemonicValid :: "prims \<Rightarrow> string \<Rightarrow> bool" where
  "bip39_IsMnemonicValid P mnemonic =
     (let ws = Fields mnemonic; n = length ws in
      if n mod 3 \<noteq> 0 \<or> n < 12 \<or> 24 < n then False
      else if \<not> list_all (\<lambda>w. w \<in> set (wordlist P)) ws then False
      else
        let stream = concat (map (\<lambda>w. bits_of_nat 11 (index_of (wordlist P) w)) ws);
            entropy = bytes_of_bits (take (n div 3 * 32) stream);
            checksum = drop (n div 3 * 32) stream
        in checksum = take (n div 3) (bits_of_bytes (sha256 P entropy)))"

text \<open>
  Modelled from the spec: \<open>MnemonicToSeed(mnemonic, passphrase)\<close> (\<open>bip39.NewSeed\<close>):
  the 64-byte seed by PBKDF2-HMAC-SHA512 with 2048 iterations and the salt
  \<open>"mnemonic" + passphrase\<close>.
\<close>

definition bip39_NewSeed :: "prims \<Rightarrow> string \<Rightarrow> string \<Rightarrow> bytes" where
  "bip39_NewSeed P mnemonic password =
     pbkdf2_hmac_sha512 P (string_bytes mnemonic) (string_bytes (''mnemonic'' @ password)) 2048 64"

section \<open>Network profile\<close>

record Params =
  Name :: string
  Net :: "32 word"
  PubKeyHashAddrID :: byte
  ScriptHashAddrID :: byte
  PrivateKeyID :: byte
  WitnessPubKeyHashAddrID :: byte
  WitnessScriptHashAddrID :: byte
  HDPrivateKeyID :: bytes
  HDPublicKeyID :: bytes
  Bech32HRPSegwit :: string

definition KernelcoinParams :: Params where
  "KernelcoinParams = \<lparr>
     Name = ''kernelcoin'',
     Net = 0xf1c8d2fd,
     PubKeyHashAddrID = 45,
     ScriptHashAddrID = 23,
     PrivateKeyID = 28,
     WitnessPubKeyHashAddrID = 0x06,
     WitnessScriptHashAddrID = 0x0A,
     HDPrivateKeyID = [0x77, 0x88, 0xad, 0xe4],
     HDPublicKeyID = [0x77, 0x88, 0xb2, 0x1e],
     Bech32HRPSegwit = ''kcn'' \<rparr>"

section \<open>HD key tree\<close>

text \<open>
  An extended private key. The two entry points never build an extended public
  key, so the record has the private variant only.
\<close>

record ExtendedKey =
  version :: bytes
  key :: nat
  chainCode :: bytes
  depth :: nat
  parentFP :: bytes
  childNum :: "32 word"

definition HardenedKeyStart :: "32 word" where
  "HardenedKeyStart = 0x80000000"

definition Hash160 :: "prims \<Rightarrow> bytes \<Rightarrow> bytes" where
  \<comment> \<open>Modelled from the spec: \<open>Hash160(b) = RIPEMD160(SHA256(b))\<close>\<close>
  "Hash160 P buf = ripemd160 P (sha256 P buf)"

text \<open>
  Modelled from the spec: \<open>NewMasterKey(seed, networkProfile)\<close>
  (\<open>hdkeychain.NewMaster\<close>): HMAC-SHA512 with key \<open>"Bitcoin seed"\<close> over the
  seed; the left 32 bytes are the private scalar, which must be nonzero and
  below the curve order, the right 32 bytes are the chain code; depth 0.
\<close>

definition hdkeychain_NewMaster :: "prims \<Rightarrow> bytes \<Rightarrow> Params \<Rightarrow> lib_error + ExtendedKey" where
  "hdkeychain_NewMaster P seed net =
     (let lr = hmac_sha512 P (string_bytes ''Bitcoin seed'') seed;
          secretKey = bytes_to_nat (take 32 lr)
      in if secretKey = 0 \<or> secp256k1_N \<le> secretKey then Inl ErrUnusableSeed
         else Inr \<lparr> version = HDPrivateKeyID net, key = secretKey,
                    chainCode = drop 32 lr, depth = 0,
                    parentFP = [0, 0, 0, 0], childNum = 0 \<rparr>)"

text \<open>
  Modelled from the spec: \<open>Derive(parentKey, index)\<close> (\<open>ExtendedKey.Derive\<close>).
  Hardened (\<open>index \<ge> 2^31\<close>): HMAC-SHA512 keyed by the chain code over
  \<open>0x00 || parent private key || index\<close>; otherwise over
  \<open>compressed parent public key || index\<close>. The child scalar is the left half
  plus the parent scalar modulo the curve order; the derivation fails if the
  left half is not below the curve order or the child scalar is zero. The
  child chain code is the right half.
\<close>

definition Derive :: "prims \<Rightarrow> ExtendedKey \<Rightarrow> 32 word \<Rightarrow> lib_error + ExtendedKey" where
  "Derive P k i =
     (let isChildHardened = (HardenedKeyStart \<le> i);
          data = (if isChildHardened then 0 # nat_to_bytes 32 (key k)
                  else secp256k1_pubkey P (key k)) @ nat_to_bytes 4 (unat i);
          ilr = hmac_sha512 P (chainCode k) data;
          ilNum = bytes_to_nat (take 32 ilr);
          childKey = (ilNum + key k) mod secp256k1_N
      in if secp256k1_N \<le> ilNum \<or> childKey = 0 then Inl ErrInvalidChild
         else Inr \<lparr> version = version k, key = childKey,
                    chainCode = drop 32 ilr, depth = depth k + 1,
                    parentFP = take 4 (Hash160 P (secp256k1_pubkey P (key k))),
                    childNum = i \<rparr>)"

text \<open>Modelled from the spec: \<open>ToECPrivateKey(extendedKey)\<close>, the raw private scalar.\<close>

definition ECPrivKey :: "ExtendedKey \<Rightarrow> lib_error + nat" where
  "ECPrivKey k = Inr (key k)"

definition PrivateKey_Serialize :: "nat \<Rightarrow> bytes" where
  "PrivateKey_Serialize d = nat_to_bytes 32 d"

text \<open>
  Modelled from the spec: \<open>ToECPublicKey(privateKey)\<close>; a public key is kept as
  its compressed 33-byte serialisation.
\<close>

definition PubKey :: "prims \<Rightarrow> nat \<Rightarrow> bytes" where
  "PubKey P d = secp256k1_pubkey P d"

definition SerializeCompressed :: "bytes \<Rightarrow> bytes" where
  "SerializeCompressed pub = pub"

section \<open>Key encoders\<close>

subsection \<open>Base58 and base58check\<close>

definition b58alphabet :: string where
  "b58alphabet = ''123456789ABCDEFGHJKLMNPQRSTUVWXYZabcdefghijkmnopqrstuvwxyz''"

fun b58digits :: "nat \<Rightarrow> nat list" where
  "b58digits n = (if n = 0 then [] else b58digits (n div 58) @ [n mod 58])"

declare b58digits.simps [simp del]

text \<open>
  Modelled from the spec: base58 encoding: the bytes read as one big-endian
  number and written in base 58, most significant digit first, every leading
  zero byte written as the digit of zero.
\<close>

definition base58_Encode :: "bytes \<Rightarrow> string" where
  "base58_Encode b =
     replicate (length (takeWhile (\<lambda>x. x = 0) b)) (b58alphabet ! 0)
     @ map (\<lambda>d. b58alphabet ! d) (b58digits (bytes_to_nat b))"

definition checksum :: "prims \<Rightarrow> bytes \<Rightarrow> bytes" where
  \<comment> \<open>the first 4 bytes of the double SHA-256\<close>
  "checksum P input = take 4 (sha256 P (sha256 P input))"

definition base58_CheckEncode :: "prims \<Rightarrow> bytes \<Rightarrow> byte \<Rightarrow> string" where
  "base58_CheckEncode P input ver =
     base58_Encode ((ver # input) @ checksum P (ver # input))"

fun nat_bytes :: "nat \<Rightarrow> bytes" where
  \<comment> \<open>big-endian without leading zero bytes\<close>
  "nat_bytes n = (if n = 0 then [] else nat_bytes (n div 256) @ [of_nat n])"

declare nat_bytes.simps [simp del]

definition base58_Decode :: "string \<Rightarrow> bytes option" where
  "base58_Decode s =
     (if \<not> list_all (\<lambda>c. c \<in> set b58alphabet) s then None
      else
        let answer = foldl (\<lambda>a c. a * 58 + index_of b58alphabet c) 0 s;
            numZeros = length (takeWhile (\<lambda>c. c = b58alphabet ! 0) s)
        in Some (replicate numZeros 0 @ nat_bytes answer))"

text \<open>
  Base58check decoding: version byte, payload, and a 4-byte checksum that must
  be the first 4 bytes of the double SHA-256 of what precedes it.
\<close>

definition base58_CheckDecode :: "prims \<Rightarrow> string \<Rightarrow> (bytes \<times> byte) option" where
  "base58_CheckDecode P s =
     (case base58_Decode s of
        None \<Rightarrow> None
      | Some decoded \<Rightarrow>
          if length decoded < 5 then None
          else
            let body = take (length decoded - 4) decoded;
                cksum = drop (length decoded - 4) decoded
            in if checksum P body \<noteq> cksum then None
               else Some (tl body, hd body))"

subsection \<open>Bech32\<close>

definition charset :: string where
  "charset = ''qpzry9x8gf2tvdw0s3jn54khce6mua7l''"

definition bech32_gen :: "nat list" where
  "bech32_gen = [0x3b6a57b2, 0x26508e6d, 0x1ea119fa, 0x3d4233dd, 0x2a1462b3]"

definition polymod_step :: "nat \<Rightarrow> nat \<Rightarrow> nat" where
  "polymod_step chk v =
     (let b = drop_bit 25 chk;
          chk' = push_bit 5 (chk AND 0x1ffffff) XOR v
      in fold (\<lambda>i c. if bit b i then c XOR bech32_gen ! i else c) [0..<5] chk')"

definition bech32Polymod :: "nat list \<Rightarrow> nat" where
  "bech32Polymod values = foldl polymod_step 1 values"

definition bech32HrpExpand :: "string \<Rightarrow> nat list" where
  "bech32HrpExpand hrp =
     map (\<lambda>c. drop_bit 5 (of_char c)) hrp @ [0] @ map (\<lambda>c. of_char c AND 31) hrp"

definition bech32Checksum :: "string \<Rightarrow> nat list \<Rightarrow> nat list" where
  "bech32Checksum hrp data =
     (let pm = bech32Polymod (bech32HrpExpand hrp @ data @ replicate 6 0) XOR 1
      in map (\<lambda>i. drop_bit (5 * (5 - i)) pm AND 31) [0..<6])"

text \<open>
  Modelled from the spec: bech32 encoding per BIP173: the human-readable
  prefix, the separator \<open>1\<close>, then the 5-bit groups and the 6-group checksum in
  the bech32 alphabet.
\<close>

definition bech32_Encode :: "string \<Rightarrow> nat list \<Rightarrow> string" where
  "bech32_Encode hrp data =
     hrp @ ''1'' @ map (\<lambda>d. charset ! d) (data @ bech32Checksum hrp data)"

definition ConvertBits8to5 :: "bytes \<Rightarrow> nat list" where
  \<comment> \<open>repacking into 5-bit groups, the last one padded with zero bits\<close>
  "ConvertBits8to5 data =
     (let bs = bits_of_bytes data;
          padded = bs @ replicate ((5 - length bs mod 5) mod 5) False
      in map nat_of_bits (groups 5 padded))"

definition ConvertBits5to8 :: "nat list \<Rightarrow> bytes option" where
  \<comment> \<open>repacking into bytes; the left-over bits must be fewer than 5 and all zero\<close>
  "ConvertBits5to8 data =
     (let bs = concat (map (bits_of_nat 5) data);
          whole = length bs - length bs mod 8
      in if 5 \<le> length bs mod 8 \<or> (\<exists>b \<in> set (drop whole bs). b) then None
         else Some (bytes_of_bits (take whole bs)))"

definition bech32_Decode :: "string \<Rightarrow> (string \<times> nat list) option" where
  "bech32_Decode bech =
     (if length bech < 8 \<or> 90 < length bech then None
      else if CHR ''1'' \<notin> set bech then None
      else
        let one = length bech - 1 - index_of (rev bech) (CHR ''1'');
            hrp = take one bech;
            dat = drop (one + 1) bech
        in if one < 1 \<or> length dat < 6 then None
           else if \<not> list_all (\<lambda>c. c \<in> set charset) dat then None
           else
             let decoded = map (index_of charset) dat
             in if bech32Polymod (bech32HrpExpand hrp @ decoded) \<noteq> 1 then None
                else Some (hrp, take (length decoded - 6) decoded))"

text \<open>
  Decoding a segwit address: the first 5-bit group is the witness version, the
  others repack into the witness program.
\<close>

definition decodeSegWitAddress :: "string \<Rightarrow> (string \<times> nat \<times> bytes) option" where
  "decodeSegWitAddress address =
     (case bech32_Decode address of
        None \<Rightarrow> None
      | Some (hrp, data) \<Rightarrow>
          (case data of
             [] \<Rightarrow> None
           | ver # rest \<Rightarrow>
               if 16 < ver then None
               else (case ConvertBits5to8 rest of
                       None \<Rightarrow> None
                     | Some prog \<Rightarrow>
                         if length prog < 2 \<or> 40 < length prog then None
                         else if ver = 0 \<and> length prog \<noteq> 20 \<and> length prog \<noteq> 32 then None
                         else Some (hrp, ver, prog))))"

subsection \<open>Wallet import format and addresses\<close>

record WIF =
  PrivKey :: nat
  CompressPubKey :: bool
  netID :: byte

text \<open>
  Modelled from the spec: \<open>ToWIF(privateKey, profile, compressed)\<close>
  (\<open>btcutil.NewWIF\<close> and \<open>WIF.String\<close>): version byte, 32-byte scalar, 0x01 if
  compressed, then the 4-byte checksum, all base58-encoded. The only error is
  a scalar that does not fit 32 bytes.
\<close>

definition btcutil_NewWIF :: "nat \<Rightarrow> Params \<Rightarrow> bool \<Rightarrow> lib_error + WIF" where
  "btcutil_NewWIF privKey net compress =
     (if 2 ^ 256 \<le> privKey then Inl ErrInvalidKeyLength
      else Inr \<lparr> PrivKey = privKey, CompressPubKey = compress, netID = PrivateKeyID net \<rparr>)"

definition WIF_String :: "prims \<Rightarrow> WIF \<Rightarrow> string" where
  "WIF_String P w =
     (let a = netID w # PrivateKey_Serialize (PrivKey w)
              @ (if CompressPubKey w then [0x01] else [])
      in base58_Encode (a @ checksum P a))"

record AddressPubKeyHash =
  pkh_hash :: bytes
  pkh_netID :: byte

text \<open>
  Modelled from the spec: \<open>ToLegacyAddress(pubkeyHash, profile)\<close>: base58check of
  the hash under the profile's P2PKH version byte; a hash that is not 20 bytes
  long is an error.
\<close>

definition btcutil_NewAddressPubKeyHash :: "bytes \<Rightarrow> Params \<Rightarrow> lib_error + AddressPubKeyHash" where
  "btcutil_NewAddressPubKeyHash pkHash net =
     (if length pkHash \<noteq> 20 then Inl ErrInvalidHashLength
      else Inr \<lparr> pkh_hash = pkHash, pkh_netID = PubKeyHashAddrID net \<rparr>)"

definition AddressPubKeyHash_EncodeAddress :: "prims \<Rightarrow> AddressPubKeyHash \<Rightarrow> string" where
  "AddressPubKeyHash_EncodeAddress P a = base58_CheckEncode P (pkh_hash a) (pkh_netID a)"

record AddressWitnessPubKeyHash =
  hrp :: string
  witnessVersion :: nat
  witnessProgram :: bytes

text \<open>
  Modelled from the spec: \<open>ToSegwitAddress(pubkeyHash, profile)\<close>: bech32 of
  witness version 0 and the hash repacked into 5-bit groups, under the
  profile's human-readable prefix; a hash that is not 20 bytes long is an error.
\<close>

definition btcutil_NewAddressWitnessPubKeyHash ::
    "bytes \<Rightarrow> Params \<Rightarrow> lib_error + AddressWitnessPubKeyHash" where
  "btcutil_NewAddressWitnessPubKeyHash witnessProg net =
     (if length witnessProg \<noteq> 20 then Inl ErrInvalidHashLength
      else Inr \<lparr> hrp = Bech32HRPSegwit net, witnessVersion = 0,
                 witnessProgram = witnessProg \<rparr>)"

definition AddressWitnessPubKeyHash_EncodeAddress :: "AddressWitnessPubKeyHash \<Rightarrow> string" where
  "AddressWitnessPubKeyHash_EncodeAddress a =
     bech32_Encode (hrp a) (witnessVersion a # ConvertBits8to5 (witnessProgram a))"

section \<open>Wallet assembly\<close>

record Wallet =
  Mnemonic :: string
  PrivateKeyHex :: string
  PrivateKeyWIF :: string
  PublicKeyHex :: string
  LegacyAddress :: string
  SegWitAddress :: string
  PublicKeyHash :: string
  DerivationPath :: string

text \<open>
  \<open>fmt.Errorf(msg + ": %w", err)\<close> is \<open>Errorf msg (Some err)\<close>, and an error that
  wraps nothing is \<open>Errorf msg None\<close>.
\<close>

datatype error = Errorf string "lib_error option"

text \<open>
  The pattern \<open>v, err := f(...); if err != nil { return nil, fmt.Errorf(msg, err) }\<close>
  followed by the rest of the function body.
\<close>

definition attempt :: "string \<Rightarrow> lib_error + 'a \<Rightarrow> ('a \<Rightarrow> error + 'b) \<Rightarrow> error + 'b" where
  "attempt msg r rest = (case r of Inl err \<Rightarrow> Inl (Errorf msg (Some err)) | Inr v \<Rightarrow> rest v)"

text \<open>
  Both entry points take the state of the secure random source and return it:
  \<open>GenerateNewWallet\<close> reads from it, \<open>GenerateWalletFromMnemonic\<close> does not
  touch it.
\<close>

definition GenerateNewWallet :: "prims \<Rightarrow> rand_source \<Rightarrow> (error + Wallet) \<times> rand_source" where
  "GenerateNewWallet P src =
     (let (r, src') = bip39_NewEntropy 128 src in
      (attempt ''failed to generate entropy'' r (\<lambda>entropy.
        attempt ''failed to generate mnemonic'' (bip39_NewMnemonic P entropy) (\<lambda>mnemonic.
        let seed = bip39_NewSeed P mnemonic [] in
        attempt ''failed to create master key'' (hdkeychain_NewMaster P seed KernelcoinParams) (\<lambda>masterKey.
        let derivationPath = ''m/44'/2'/0'/0/0'' in
        attempt ''failed to derive purpose'' (Derive P masterKey (HardenedKeyStart + 44)) (\<lambda>purpose.
        attempt ''failed to derive coin type'' (Derive P purpose (HardenedKeyStart + 2)) (\<lambda>coinType.
        attempt ''failed to derive account'' (Derive P coinType (HardenedKeyStart + 0)) (\<lambda>account.
        attempt ''failed to derive change'' (Derive P account 0) (\<lambda>change.
        attempt ''failed to derive address key'' (Derive P change 0) (\<lambda>addressKey.
        attempt ''failed to get private key'' (ECPrivKey addressKey) (\<lambda>privKey.
        attempt ''failed to create WIF'' (btcutil_NewWIF privKey KernelcoinParams True) (\<lambda>wif.
        let pubKey = PubKey P privKey;
            pubKeyHash = Hash160 P (SerializeCompressed pubKey) in
        attempt ''failed to create legacy address''
            (btcutil_NewAddressPubKeyHash pubKeyHash KernelcoinParams) (\<lambda>legacyAddr.
        attempt ''failed to create bech32 address''
            (btcutil_NewAddressWitnessPubKeyHash pubKeyHash KernelcoinParams) (\<lambda>bech32Addr.
        Inr \<lparr> Mnemonic = mnemonic,
              PrivateKeyHex = hex_EncodeToString (PrivateKey_Serialize privKey),
              PrivateKeyWIF = WIF_String P wif,
              PublicKeyHex = hex_EncodeToString (SerializeCompressed pubKey),
              LegacyAddress = AddressPubKeyHash_EncodeAddress P legacyAddr,
              SegWitAddress = AddressWitnessPubKeyHash_EncodeAddress bech32Addr,
              PublicKeyHash = hex_EncodeToString pubKeyHash,
              DerivationPath = derivationPath \<rparr>)))))))))))),
       src'))"

definition GenerateWalletFromMnemonic ::
    "prims \<Rightarrow> string \<Rightarrow> rand_source \<Rightarrow> (error + Wallet) \<times> rand_source" where
  "GenerateWalletFromMnemonic P mnemonic src =
     (if \<not> bip39_IsMnemonicValid P mnemonic
      then (Inl (Errorf ''invalid mnemonic phrase'' None), src)
      else
       (let seed = bip39_NewSeed P mnemonic [] in
        attempt ''failed to create master key'' (hdkeychain_NewMaster P seed KernelcoinParams) (\<lambda>masterKey.
        let derivationPath = ''m/44'/2'/0'/0/0'' in
        attempt ''failed to derive purpose'' (Derive P masterKey (HardenedKeyStart + 44)) (\<lambda>purpose.
        attempt ''failed to derive coin type'' (Derive P purpose (HardenedKeyStart + 2)) (\<lambda>coinType.
        attempt ''failed to derive account'' (Derive P coinType (HardenedKeyStart + 0)) (\<lambda>account.
        attempt ''failed to derive change'' (Derive P account 0) (\<lambda>change.
        attempt ''failed to derive address key'' (Derive P change 0) (\<lambda>addressKey.
        attempt ''failed to get private key'' (ECPrivKey addressKey) (\<lambda>privKey.
        attempt ''failed to create WIF'' (btcutil_NewWIF privKey KernelcoinParams True) (\<lambda>wif.
        let pubKey = PubKey P privKey;
            pubKeyHash = Hash160 P (SerializeCompressed pubKey) in
        attempt ''failed to create legacy address''
            (btcutil_NewAddressPubKeyHash pubKeyHash KernelcoinParams) (\<lambda>legacyAddr.
        attempt ''failed to create bech32 address''
            (btcutil_NewAddressWitnessPubKeyHash pubKeyHash KernelcoinParams) (\<lambda>bech32Addr.
        Inr \<lparr> Mnemonic = mnemonic,
              PrivateKeyHex = hex_EncodeToString (PrivateKey_Serialize privKey),
              PrivateKeyWIF = WIF_String P wif,
              PublicKeyHex = hex_EncodeToString (SerializeCompressed pubKey),
              LegacyAddress = AddressPubKeyHash_EncodeAddress P legacyAddr,
              SegWitAddress = AddressWitnessPubKeyHash_EncodeAddress bech32Addr,
              PublicKeyHash = hex_EncodeToString pubKeyHash,
              DerivationPath = derivationPath \<rparr>)))))))))),
        src))"

section \<open>Specification-level definitions\<close>

text \<open>An index is hardened when it is at least \<open>2^31\<close>.\<close>

definition hardened :: "32 word \<Rightarrow> bool" where
  "hardened i = (HardenedKeyStart \<le> i)"

text \<open>Walking a path: one child derivation per index, stopping at the first error.\<close>

fun derive_path :: "prims \<Rightarrow> ExtendedKey \<Rightarrow> 32 word list \<Rightarrow> lib_error + ExtendedKey" where
  "derive_path P k [] = Inr k"
| "derive_path P k (i # is) =
     (case Derive P k i of Inl err \<Rightarrow> Inl err | Inr child \<Rightarrow> derive_path P child is)"

text \<open>The key at a path below the master key of a mnemonic (empty passphrase).\<close>

definition leaf_key_at :: "prims \<Rightarrow> string \<Rightarrow> 32 word list \<Rightarrow> lib_error + ExtendedKey" where
  "leaf_key_at P mnemonic path =
     (case hdkeychain_NewMaster P (bip39_NewSeed P mnemonic []) KernelcoinParams of
        Inl err \<Rightarrow> Inl err
      | Inr masterKey \<Rightarrow> derive_path P masterKey path)"

text \<open>
  The wallet result in the words of the specification: every field written
  out from the leaf key and the literal values of the network profile.
\<close>

definition wallet_of_leaf :: "prims \<Rightarrow> string \<Rightarrow> ExtendedKey \<Rightarrow> Wallet" where
  "wallet_of_leaf P mnemonic leaf =
     \<lparr> Mnemonic = mnemonic,
       PrivateKeyHex = hex_EncodeToString (nat_to_bytes 32 (key leaf)),
       PrivateKeyWIF = base58_Encode
          ((28 # nat_to_bytes 32 (key leaf) @ [1])
           @ checksum P (28 # nat_to_bytes 32 (key leaf) @ [1])),
       PublicKeyHex = hex_EncodeToString (secp256k1_pubkey P (key leaf)),
       LegacyAddress = base58_CheckEncode P (Hash160 P (secp256k1_pubkey P (key leaf))) 45,
       SegWitAddress = bech32_Encode ''kcn''
          (0 # ConvertBits8to5 (Hash160 P (secp256k1_pubkey P (key leaf)))),
       PublicKeyHash = hex_EncodeToString (Hash160 P (secp256k1_pubkey P (key leaf))),
       DerivationPath = ''m/44'/2'/0'/0/0'' \<rparr>"

text \<open>
  The part of the body that the two entry points have in common, from the seed
  to the wallet record; \<open>restore_walk\<close> and \<open>new_walk\<close> below show that both
  bodies contain it verbatim.
\<close>

definition walk :: "prims \<Rightarrow> string \<Rightarrow> error + Wallet" where
  "walk P mnemonic =
       (let seed = bip39_NewSeed P mnemonic [] in
        attempt ''failed to create master key'' (hdkeychain_NewMaster P seed KernelcoinParams) (\<lambda>masterKey.
        let derivationPath = ''m/44'/2'/0'/0/0'' in
        attempt ''failed to derive purpose'' (Derive P masterKey (HardenedKeyStart + 44)) (\<lambda>purpose.
        attempt ''failed to derive coin type'' (Derive P purpose (HardenedKeyStart + 2)) (\<lambda>coinType.
        attempt ''failed to derive account'' (Derive P coinType (HardenedKeyStart + 0)) (\<lambda>account.
        attempt ''failed to derive change'' (Derive P account 0) (\<lambda>change.
        attempt ''failed to derive address key'' (Derive P change 0) (\<lambda>addressKey.
        attempt ''failed to get private key'' (ECPrivKey addressKey) (\<lambda>privKey.
        attempt ''failed to create WIF'' (btcutil_NewWIF privKey KernelcoinParams True) (\<lambda>wif.
        let pubKey = PubKey P privKey;
            pubKeyHash = Hash160 P (SerializeCompressed pubKey) in
        attempt ''failed to create legacy address''
            (btcutil_NewAddressPubKeyHash pubKeyHash KernelcoinParams) (\<lambda>legacyAddr.
        attempt ''failed to create bech32 address''
            (btcutil_NewAddressWitnessPubKeyHash pubKeyHash KernelcoinParams) (\<lambda>bech32Addr.
        Inr \<lparr> Mnemonic = mnemonic,
              PrivateKeyHex = hex_EncodeToString (PrivateKey_Serialize privKey),
              PrivateKeyWIF = WIF_String P wif,
              PublicKeyHex = hex_EncodeToString (SerializeCompressed pubKey),
              LegacyAddress = AddressPubKeyHash_EncodeAddress P legacyAddr,
              SegWitAddress = AddressWitnessPubKeyHash_EncodeAddress bech32Addr,
              PublicKeyHash = hex_EncodeToString pubKeyHash,
              DerivationPath = derivationPath \<rparr>)))))))))))"

definition wallet_path :: "32 word list" where
  "wallet_path = [HardenedKeyStart + 44, HardenedKeyStart + 2, HardenedKeyStart + 0, 0, 0]"

text \<open>
  What the development assumes of the primitives: the word list has 2048
  distinct words, none empty and none containing white space, SHA-256 returns
  32 bytes and RIPEMD-160 returns 20 bytes.
\<close>

definition wordok :: "string \<Rightarrow> bool" where
  "wordok w = (w \<noteq> [] \<and> list_all (\<lambda>c. \<not> isSpace c) w)"

definition prims_ok :: "prims \<Rightarrow> bool" where
  "prims_ok P = (length (wordlist P) = 2048 \<and> distinct (wordlist P)
     \<and> list_all wordok (wordlist P)
     \<and> (\<forall>x. length (sha256 P x) = 32) \<and> (\<forall>x. length (ripemd160 P x) = 20))"

text \<open>
  A small instance of the primitives, cheap to evaluate, on which the
  theorems are run at concrete inputs. Its keyed hash tells a hardened
  derivation (data starting with \<open>0x00\<close>) from a non-hardened one (data
  starting with the public key).
\<close>

definition test_word :: "nat \<Rightarrow> string" where
  "test_word i = map (\<lambda>b. if b then CHR ''b'' else CHR ''a'') (bits_of_nat 11 i)"

definition test_prims :: prims where
  "test_prims = \<lparr>
     sha256 = (\<lambda>x. replicate 32 (of_nat (length x))),
     ripemd160 = (\<lambda>x. replicate 20 (of_nat (length x))),
     hmac_sha512 = (\<lambda>k d. replicate 31 0 @ [(case d of [] \<Rightarrow> 0 | b # _ \<Rightarrow> b) + 1]
                            @ replicate 32 (of_nat (length k))),
     pbkdf2_hmac_sha512 = (\<lambda>p s c l. 7 # replicate (l - 1) (of_nat (length p))),
     secp256k1_pubkey = (\<lambda>k. 2 # nat_to_bytes 32 k),
     wordlist = map test_word [0..<2048] \<rparr>"

definition test_entropy :: bytes where
  "test_entropy = [0, 0, 0, 0, 0, 0, 0, 0, 0, 0, 0, 0, 0, 0, 0, 0]"

definition test_mnemonic :: string where
  "test_mnemonic = ''aaaaaaaaaaa aaaaaaaaaaa aaaaaaaaaaa aaaaaaaaaaa aaaaaaaaaaa aaaaaaaaaaa aaaaaaaaaaa aaaaaaaaaaa aaaaaaaaaaa aaaaaaaaaaa aaaaaaaaaaa aaaaaaaaaab''"




section \<open>Proofs\<close>

lemma nat_of_bits_snoc: "nat_of_bits (bs @ [b]) = 2 * nat_of_bits bs + (if b then 1 else 0)"
  by (simp add: nat_of_bits_def)

lemma bits_of_nat_Suc: "bits_of_nat (Suc w) n = bits_of_nat w (n div 2) @ [odd n]"
proof -
  have "rev [0..<Suc w] = map Suc (rev [0..<w]) @ [0]"
    by (simp add: rev_map [symmetric] map_Suc_upt upt_conv_Cons del: upt_Suc)
  then show ?thesis
    by (simp add: bits_of_nat_def bit_Suc bit_0 comp_def del: upt_Suc)
qed

lemma bits_of_nat_0: "bits_of_nat 0 n = []"
  by (simp add: bits_of_nat_def)

lemma length_bits_of_nat: "length (bits_of_nat w n) = w"
  by (simp add: bits_of_nat_def)

lemma nat_of_bits_of_nat: "nat_of_bits (bits_of_nat w n) = n mod 2 ^ w"
proof (induction w arbitrary: n)
  case 0
  then show ?case by (simp add: bits_of_nat_0 nat_of_bits_def)
next
  case (Suc w)
  have "n mod (2 * 2 ^ w) = 2 * (n div 2 mod 2 ^ w) + n mod 2"
    by (simp add: mod_mult2_eq)
  then show ?case
    by (simp add: bits_of_nat_Suc nat_of_bits_snoc Suc odd_iff_mod_2_eq_one)
qed

lemma nat_of_bits_less: "nat_of_bits bs < 2 ^ length bs"
proof (induction bs rule: rev_induct)
  case Nil
  then show ?case by (simp add: nat_of_bits_def)
next
  case (snoc b bs)
  then show ?case by (simp add: nat_of_bits_snoc)
qed

lemma bits_of_nat_of_bits: "bits_of_nat (length bs) (nat_of_bits bs) = bs"
proof (induction bs rule: rev_induct)
  case Nil
  then show ?case by (simp add: bits_of_nat_0)
next
  case (snoc b bs)
  then show ?case by (simp add: bits_of_nat_Suc nat_of_bits_snoc)
qed

lemma groups_Nil: "groups n [] = []"
  by (simp add: groups.simps)

lemma groups_append:
  "0 < n \<Longrightarrow> length xs = n \<Longrightarrow> groups n (xs @ ys) = xs # groups n ys"
  by (subst groups.simps) auto

lemma groups_concat:
  "0 < n \<Longrightarrow> \<forall>g \<in> set gs. length g = n \<Longrightarrow> groups n (concat gs) = gs"
  by (induction gs) (simp_all add: groups_Nil groups_append)

lemma concat_groups: "0 < n \<Longrightarrow> concat (groups n xs) = xs"
proof (induction n xs rule: groups.induct)
  case (1 n xs)
  then show ?case by (subst groups.simps) auto
qed

lemma groups_lengths:
  "0 < n \<Longrightarrow> n dvd length xs \<Longrightarrow> g \<in> set (groups n xs) \<Longrightarrow> length g = n"
proof (induction n xs rule: groups.induct)
  case (1 n xs)
  show ?case
  proof (cases "xs = []")
    case True
    with 1 show ?thesis by (simp add: groups_Nil)
  next
    case False
    from "1.prems" False have le: "n \<le> length xs"
      by (simp add: dvd_imp_le)
    from "1.prems"(3) False "1.prems"(1)
    have "g = take n xs \<or> g \<in> set (groups n (drop n xs))"
      by (subst (asm) groups.simps) auto
    then show ?thesis
    proof
      assume "g = take n xs"
      with le show ?thesis by simp
    next
      assume g: "g \<in> set (groups n (drop n xs))"
      have "n dvd length (drop n xs)"
        using "1.prems"(2) le by (simp add: dvd_diff_nat)
      with 1 False g show ?thesis by simp
    qed
  qed
qed

lemma length_groups: "0 < n \<Longrightarrow> n dvd length xs \<Longrightarrow> length (groups n xs) = length xs div n"
proof (induction n xs rule: groups.induct)
  case (1 n xs)
  show ?case
  proof (cases "xs = []")
    case True
    then show ?thesis by (simp add: groups_Nil)
  next
    case False
    from "1.prems" False have le: "n \<le> length xs"
      by (simp add: dvd_imp_le)
    have d: "n dvd length (drop n xs)"
      using "1.prems"(2) le by (simp add: dvd_diff_nat)
    have "length (groups n xs) = Suc (length (groups n (drop n xs)))"
      using False "1.prems"(1) by (subst groups.simps) simp
    also have "\<dots> = Suc ((length xs - n) div n)"
      using 1 False d by simp
    also have "\<dots> = length xs div n"
      using le "1.prems"(1) by (simp add: le_div_geq)
    finally show ?thesis .
  qed
qed

lemma index_of_nth: "distinct xs \<Longrightarrow> i < length xs \<Longrightarrow> index_of xs (xs ! i) = i"
proof (induction xs arbitrary: i)
  case Nil
  then show ?case by simp
next
  case (Cons x xs)
  show ?case
  proof (cases i)
    case 0
    then show ?thesis by (simp add: index_of_def)
  next
    case (Suc j)
    with Cons.prems have "xs ! j \<noteq> x" by auto
    with Cons Suc show ?thesis by (auto simp: index_of_def)
  qed
qed

lemma bytes_of_bits_of_bytes: "bytes_of_bits (bits_of_bytes bs) = bs"
proof -
  have "groups 8 (bits_of_bytes bs) = map (\<lambda>b. bits_of_nat 8 (unat b)) bs"
    unfolding bits_of_bytes_def
    by (rule groups_concat) (auto simp: length_bits_of_nat)
  moreover have "of_nat (nat_of_bits (bits_of_nat 8 (unat b))) = b" for b :: byte
  proof -
    have "unat b < 2 ^ 8" using unsigned_less [of b] by simp
    then show ?thesis by (simp add: nat_of_bits_of_nat)
  qed
  ultimately show ?thesis
    by (simp add: bytes_of_bits_def comp_def)
qed

lemma length_bits_of_bytes: "length (bits_of_bytes bs) = 8 * length bs"
  by (induction bs) (simp_all add: bits_of_bytes_def length_bits_of_nat)

lemma isSpace_space: "isSpace CHR '' ''"
  by (simp add: isSpace_def)

lemma Fields_Nil: "Fields [] = []"
  by (simp add: Fields.simps)

lemma Fields_space: "isSpace c \<Longrightarrow> Fields (c # s) = Fields s"
  by (subst Fields.simps, subst (2) Fields.simps) simp

lemma Fields_Cons_nonspace:
  "\<not> isSpace a \<Longrightarrow>
   Fields (a # s) = takeWhile (\<lambda>x. \<not> isSpace x) (a # s)
                    # Fields (dropWhile (\<lambda>x. \<not> isSpace x) (a # s))"
  by (subst Fields.simps) simp

lemma Fields_word_sep:
  assumes "wordok w" and "isSpace c"
  shows "Fields (w @ c # rest) = w # Fields rest"
proof -
  from assms(1) obtain a w' where w: "w = a # w'" and a: "\<not> isSpace a"
    and all: "\<forall>x \<in> set w. \<not> isSpace x"
    by (cases w) (auto simp: wordok_def list_all_iff)
  have t: "takeWhile (\<lambda>x. \<not> isSpace x) (w @ c # rest) = w"
    using all assms(2) by (simp add: takeWhile_append2)
  have r: "dropWhile (\<lambda>x. \<not> isSpace x) (w @ c # rest) = c # rest"
    using all assms(2) by (simp add: dropWhile_append2)
  have "Fields (a # (w' @ c # rest))
      = takeWhile (\<lambda>x. \<not> isSpace x) (a # (w' @ c # rest))
        # Fields (dropWhile (\<lambda>x. \<not> isSpace x) (a # (w' @ c # rest)))"
    by (rule Fields_Cons_nonspace [OF a])
  moreover have "a # (w' @ c # rest) = w @ c # rest" by (simp add: w)
  ultimately have "Fields (w @ c # rest) = w # Fields (c # rest)"
    by (simp only: t r)
  then show ?thesis using assms(2) by (simp add: Fields_space)
qed

lemma Fields_word:
  assumes "wordok w"
  shows "Fields w = [w]"
proof -
  from assms obtain a w' where w: "w = a # w'" and a: "\<not> isSpace a"
    and all: "\<forall>x \<in> set w. \<not> isSpace x"
    by (cases w) (auto simp: wordok_def list_all_iff)
  have t: "takeWhile (\<lambda>x. \<not> isSpace x) w = w" using all by simp
  have r: "dropWhile (\<lambda>x. \<not> isSpace x) w = []" using all by simp
  have "Fields (a # w')
      = takeWhile (\<lambda>x. \<not> isSpace x) (a # w')
        # Fields (dropWhile (\<lambda>x. \<not> isSpace x) (a # w'))"
    by (rule Fields_Cons_nonspace [OF a])
  then have "Fields w = w # Fields []"
    by (simp only: w [symmetric] t r)
  then show ?thesis by (simp add: Fields_Nil)
qed

lemma Fields_Join: "list_all wordok ws \<Longrightarrow> Fields (Join ws '' '') = ws"
proof (induction ws "'' ''" rule: Join.induct)
  case 1
  then show ?case by (simp add: Fields_Nil)
next
  case (2 w)
  then show ?case by (simp add: Fields_word)
next
  case (3 w v va)
  then show ?case
    using Fields_word_sep [of w "CHR '' ''"] by (simp add: isSpace_space)
qed

lemma mnemonic_roundtrip:
  assumes ok: "prims_ok P" and new: "bip39_NewMnemonic P e = Inr m"
  shows "bip39_IsMnemonicValid P m"
proof -
  define L where "L = length e"
  define cs where "cs = take (8 * L div 32) (bits_of_bytes (sha256 P e))"
  define stream where "stream = bits_of_bytes e @ cs"
  define gs where "gs = groups 11 stream"
  define ws where "ws = map (\<lambda>g. wordlist P ! nat_of_bits g) gs"
  from new have wf: "8 * L mod 32 = 0" "128 \<le> 8 * L" "8 * L \<le> 256"
    and m: "m = Join ws '' ''"
    by (auto simp: bip39_NewMnemonic_def Let_def L_def cs_def stream_def gs_def ws_def
        split: if_splits)
  define k where "k = L div 4"
  have k: "L = 4 * k" "4 \<le> k" "k \<le> 8"
    using wf unfolding k_def by presburger+
  from ok have wl: "length (wordlist P) = 2048" "distinct (wordlist P)"
    "list_all wordok (wordlist P)" and sha: "length (sha256 P e) = 32"
    by (simp_all add: prims_ok_def)
  have lcs: "length cs = k"
    using k sha by (simp add: cs_def length_bits_of_bytes)
  have lstream: "length stream = 11 * (3 * k)"
    using k lcs by (simp add: stream_def length_bits_of_bytes L_def [symmetric])
  have lgs: "length gs = 3 * k"
  proof -
    have "11 dvd length stream" unfolding lstream by (rule dvd_triv_left)
    then have "length gs = length stream div 11"
      unfolding gs_def by (simp add: length_groups)
    then show ?thesis by (simp add: lstream)
  qed
  have g11: "length g = 11" if "g \<in> set gs" for g
  proof (rule groups_lengths [of 11 stream])
    show "(0::nat) < 11" by simp
    show "11 dvd length stream" unfolding lstream by (rule dvd_triv_left)
    show "g \<in> set (groups 11 stream)" using that by (simp add: gs_def)
  qed
  have idx: "nat_of_bits g < length (wordlist P)" if "g \<in> set gs" for g
    using nat_of_bits_less [of g] g11 [OF that] wl(1) by simp
  have wsok: "list_all wordok ws"
    using wl(3) idx by (auto simp: ws_def list_all_iff)
  have wsin: "list_all (\<lambda>w. w \<in> set (wordlist P)) ws"
    using idx by (auto simp: ws_def list_all_iff)
  have F: "Fields m = ws"
    unfolding m by (rule Fields_Join [OF wsok])
  have lws: "length ws = 3 * k" by (simp add: ws_def lgs)
  have "map (\<lambda>w. bits_of_nat 11 (index_of (wordlist P) w)) ws = gs"
  proof -
    have "bits_of_nat 11 (index_of (wordlist P) (wordlist P ! nat_of_bits g)) = g"
      if "g \<in> set gs" for g
      using index_of_nth [OF wl(2) idx [OF that]] bits_of_nat_of_bits [of g] g11 [OF that]
      by simp
    then show ?thesis by (simp add: ws_def map_idI)
  qed
  then have S: "concat (map (\<lambda>w. bits_of_nat 11 (index_of (wordlist P) w)) ws) = stream"
    by (simp add: gs_def concat_groups)
  have T: "take (3 * k div 3 * 32) stream = bits_of_bytes e"
    using k by (simp add: stream_def length_bits_of_bytes L_def [symmetric])
  have D: "drop (3 * k div 3 * 32) stream = cs"
    using k by (simp add: stream_def length_bits_of_bytes L_def [symmetric])
  have C: "cs = take (3 * k div 3) (bits_of_bytes (sha256 P e))"
    using k by (simp add: cs_def)
  show ?thesis
    unfolding bip39_IsMnemonicValid_def Let_def F lws S T D bytes_of_bits_of_bytes
    using k wsin C by simp
qed

lemma restore_walk: "GenerateWalletFromMnemonic P m src =
   (if \<not> bip39_IsMnemonicValid P m then (Inl (Errorf ''invalid mnemonic phrase'' None), src)
    else (walk P m, src))"
  unfolding GenerateWalletFromMnemonic_def walk_def by (rule refl)

lemma new_walk: "GenerateNewWallet P src =
   (let (r, src') = bip39_NewEntropy 128 src in
      (attempt ''failed to generate entropy'' r (\<lambda>entropy.
        attempt ''failed to generate mnemonic'' (bip39_NewMnemonic P entropy) (walk P)), src'))"
  unfolding GenerateNewWallet_def walk_def by (rule refl)

lemma walk_Inr:
  assumes "walk P m = Inr w"
  shows "\<exists>leaf. leaf_key_at P m wallet_path = Inr leaf \<and> key leaf < 2 ^ 256
           \<and> length (Hash160 P (secp256k1_pubkey P (key leaf))) = 20
           \<and> w = wallet_of_leaf P m leaf"
  using assms
  unfolding walk_def leaf_key_at_def wallet_path_def attempt_def Let_def
  by (auto split: sum.splits if_splits simp: ECPrivKey_def btcutil_NewWIF_def
      btcutil_NewAddressPubKeyHash_def btcutil_NewAddressWitnessPubKeyHash_def
      wallet_of_leaf_def KernelcoinParams_def WIF_String_def PrivateKey_Serialize_def
      PubKey_def SerializeCompressed_def AddressPubKeyHash_EncodeAddress_def
      AddressWitnessPubKeyHash_EncodeAddress_def)

lemma bytes_to_nat_foldl:
  "foldl (\<lambda>a b. a * 256 + unat b) a (bs :: bytes)
     = a * 256 ^ length bs + foldl (\<lambda>a b. a * 256 + unat b) 0 bs"
proof (induction bs arbitrary: a)
  case Nil
  then show ?case by simp
next
  case (Cons b bs)
  have "foldl (\<lambda>a b. a * 256 + unat b) (a * 256 + unat b) bs
      = (a * 256 + unat b) * 256 ^ length bs + foldl (\<lambda>a b. a * 256 + unat b) 0 bs"
    by (rule Cons)
  moreover have "foldl (\<lambda>a b. a * 256 + unat b) (unat b) bs
      = unat b * 256 ^ length bs + foldl (\<lambda>a b. a * 256 + unat b) 0 bs"
    by (rule Cons)
  ultimately show ?case
    by (simp add: add_mult_distrib)
qed

lemma bytes_to_nat_Nil: "bytes_to_nat [] = 0"
  by (simp add: bytes_to_nat_def)

lemma bytes_to_nat_Cons:
  "bytes_to_nat (b # bs) = unat b * 256 ^ length bs + bytes_to_nat bs"
  using bytes_to_nat_foldl [of "unat b" bs] by (simp add: bytes_to_nat_def)

lemma bytes_to_nat_append:
  "bytes_to_nat (xs @ ys) = bytes_to_nat xs * 256 ^ length ys + bytes_to_nat ys"
  by (induction xs) (simp_all add: bytes_to_nat_Nil bytes_to_nat_Cons power_add algebra_simps)

lemma bytes_to_nat_zeros: "bytes_to_nat (replicate n 0) = 0"
  by (induction n) (simp_all add: bytes_to_nat_Nil bytes_to_nat_Cons)

lemma secp256k1_N_less: "secp256k1_N < 2 ^ 256"
  by (simp add: secp256k1_N_def)

lemma Derive_Inr:
  assumes "Derive P k i = Inr c"
  shows "key c < secp256k1_N" and "depth c = depth k + 1" and "childNum c = i"
  using assms
  by (auto simp: Derive_def Let_def secp256k1_N_def split: if_splits)

lemma derive_path_depth:
  "derive_path P k is = Inr leaf \<Longrightarrow> depth leaf = depth k + length is"
  by (induction "is" arbitrary: k) (auto split: sum.splits dest: Derive_Inr(2))

lemma derive_path_key:
  "derive_path P k is = Inr leaf \<Longrightarrow> is \<noteq> [] \<Longrightarrow> key leaf < secp256k1_N"
proof (induction "is" arbitrary: k)
  case Nil
  then show ?case by simp
next
  case (Cons i "is")
  then show ?case
    by (cases "is") (auto split: sum.splits dest: Derive_Inr(1))
qed

lemma walk_ok:
  assumes "leaf_key_at P m wallet_path = Inr leaf"
    and "length (ripemd160 P (sha256 P (secp256k1_pubkey P (key leaf)))) = 20"
  shows "walk P m = Inr (wallet_of_leaf P m leaf)"
proof -
  from assms(1) obtain master where
    ma: "hdkeychain_NewMaster P (bip39_NewSeed P m []) KernelcoinParams = Inr master"
    and dp: "derive_path P master wallet_path = Inr leaf"
    by (auto simp: leaf_key_at_def split: sum.splits)
  have "key leaf < secp256k1_N"
    using derive_path_key [OF dp] by (simp add: wallet_path_def)
  then have lt: "key leaf < 2 ^ 256"
    using secp256k1_N_less by simp
  from dp obtain k1 k2 k3 k4 where
    "Derive P master (HardenedKeyStart + 44) = Inr k1"
    "Derive P k1 (HardenedKeyStart + 2) = Inr k2"
    "Derive P k2 (HardenedKeyStart + 0) = Inr k3"
    "Derive P k3 0 = Inr k4"
    "Derive P k4 0 = Inr leaf"
    by (auto simp: wallet_path_def split: sum.splits)
  with ma lt assms(2) show ?thesis
    by (simp add: walk_def attempt_def ECPrivKey_def btcutil_NewWIF_def
      btcutil_NewAddressPubKeyHash_def btcutil_NewAddressWitnessPubKeyHash_def
      wallet_of_leaf_def KernelcoinParams_def WIF_String_def PrivateKey_Serialize_def
      PubKey_def SerializeCompressed_def AddressPubKeyHash_EncodeAddress_def
      AddressWitnessPubKeyHash_EncodeAddress_def Hash160_def Let_def)
qed

lemma test_word_inj: "i < 2048 \<Longrightarrow> j < 2048 \<Longrightarrow> test_word i = test_word j \<Longrightarrow> i = j"
proof -
  assume i: "i < 2048" and j: "j < 2048" and e: "test_word i = test_word j"
  have "inj (\<lambda>b. if b then CHR ''b'' else CHR ''a'')"
    by (auto simp: inj_def)
  with e have "bits_of_nat 11 i = bits_of_nat 11 j"
    unfolding test_word_def by (simp add: inj_map_eq_map)
  then have "nat_of_bits (bits_of_nat 11 i) = nat_of_bits (bits_of_nat 11 j)" by simp
  with i j show ?thesis by (simp add: nat_of_bits_of_nat)
qed

lemma test_word_ok: "wordok (test_word i)"
  by (auto simp: wordok_def test_word_def list_all_iff isSpace_def bits_of_nat_def)

lemma test_prims_ok: "prims_ok test_prims"
proof -
  have "distinct (map test_word [0..<2048])"
    by (auto simp: distinct_map inj_on_def dest: test_word_inj)
  moreover have "list_all wordok (map test_word [0..<2048])"
    by (simp add: list_all_iff test_word_ok)
  ultimately show ?thesis
    by (simp add: prims_ok_def test_prims_def)
qed

lemma test_NewMaster:
  "hdkeychain_NewMaster test_prims (bip39_NewSeed test_prims m []) KernelcoinParams
     = Inr \<lparr> version = [0x77, 0x88, 0xad, 0xe4], key = 8, chainCode = replicate 32 12,
             depth = 0, parentFP = [0, 0, 0, 0], childNum = 0 \<rparr>"
  by (simp add: hdkeychain_NewMaster_def bip39_NewSeed_def test_prims_def Let_def
      KernelcoinParams_def bytes_to_nat_append bytes_to_nat_zeros bytes_to_nat_Cons
      bytes_to_nat_Nil secp256k1_N_def string_bytes_def)

lemma test_Derive:
  assumes "key k < 1000"
  shows "\<exists>c. Derive test_prims k i = Inr c
           \<and> key c = key k + (if HardenedKeyStart \<le> i then 1 else 3)"
  using assms
  by (simp add: Derive_def test_prims_def Let_def bytes_to_nat_append bytes_to_nat_zeros
      bytes_to_nat_Cons bytes_to_nat_Nil secp256k1_N_def)

lemma test_wordlist_nth: "i < 2048 \<Longrightarrow> wordlist test_prims ! i = test_word i"
  by (simp add: test_prims_def)

lemma test_stream:
  "groups 11 (bits_of_bytes test_entropy @ take 4 (bits_of_bytes (replicate 32 16)))
     = replicate 11 (bits_of_nat 11 0) @ [bits_of_nat 11 1]"
  by code_simp

lemma test_NewMnemonic: "bip39_NewMnemonic test_prims test_entropy = Inr test_mnemonic"
proof -
  have s: "sha256 test_prims test_entropy = replicate 32 16"
    by (simp add: test_prims_def test_entropy_def)
  have l: "length test_entropy = 16" by (simp add: test_entropy_def)
  have n: "nat_of_bits (bits_of_nat 11 0) = 0" "nat_of_bits (bits_of_nat 11 (Suc 0)) = Suc 0"
    by (simp_all add: nat_of_bits_of_nat)
  have w: "test_word 0 = ''aaaaaaaaaaa''" "test_word (Suc 0) = ''aaaaaaaaaab''"
    by code_simp+
  have r: "replicate 11 x = [x, x, x, x, x, x, x, x, x, x, x]" for x :: "'a"
    by (simp add: numeral_eq_Suc)
  show ?thesis
    by (simp add: bip39_NewMnemonic_def Let_def s l test_stream n test_wordlist_nth w r
        test_mnemonic_def)
qed

lemma NewMaster_depth:
  "hdkeychain_NewMaster P seed net = Inr k \<Longrightarrow> depth k = 0"
  by (auto simp: hdkeychain_NewMaster_def Let_def split: if_splits)

lemma leaf_key_at_depth:
  "leaf_key_at P m path = Inr leaf \<Longrightarrow> depth leaf = length path"
  by (auto simp: leaf_key_at_def split: sum.splits
      dest!: NewMaster_depth derive_path_depth)

lemma Mnemonic_wallet_of_leaf: "Mnemonic (wallet_of_leaf P m leaf) = m"
  by (simp add: wallet_of_leaf_def)

lemma new_Inr:
  assumes "fst (GenerateNewWallet P src) = Inr w"
  shows "\<exists>entropy. fst (bip39_NewEntropy 128 src) = Inr entropy
           \<and> bip39_NewMnemonic P entropy = Inr (Mnemonic w)
           \<and> walk P (Mnemonic w) = Inr w"
proof -
  obtain r src' where r: "bip39_NewEntropy 128 src = (r, src')"
    by (cases "bip39_NewEntropy 128 src")
  with assms obtain entropy mn where "r = Inr entropy"
    and "bip39_NewMnemonic P entropy = Inr mn" and w: "walk P mn = Inr w"
    by (auto simp: new_walk attempt_def split: sum.splits)
  moreover from walk_Inr [OF w] have "Mnemonic w = mn"
    by (auto simp: Mnemonic_wallet_of_leaf)
  ultimately show ?thesis using r by auto
qed

lemma restore_Inr:
  assumes "fst (GenerateWalletFromMnemonic P m src) = Inr w"
  shows "bip39_IsMnemonicValid P m \<and> walk P m = Inr w \<and> Mnemonic w = m"
proof -
  from assms have v: "bip39_IsMnemonicValid P m" and w: "walk P m = Inr w"
    by (auto simp: restore_walk split: if_splits)
  from walk_Inr [OF w] have "Mnemonic w = m"
    by (auto simp: Mnemonic_wallet_of_leaf)
  with v w show ?thesis by simp
qed

lemma hardened_path:
  "hardened (HardenedKeyStart + 44)" "hardened (HardenedKeyStart + 2)"
  "hardened (HardenedKeyStart + 0)" "\<not> hardened 0"
  by (simp_all add: hardened_def HardenedKeyStart_def)

text \<open>
  Claim C2. Whenever either entry point returns a wallet, the wallet is the one
  assembled from the leaf key reached from the master key of its mnemonic by
  exactly five child derivations, with the indices 44, 2 and 0 hardened, then
  0 and 0 not hardened, and its \<open>DerivationPath\<close> field is the string
  \<open>m/44'/2'/0'/0/0\<close>.
\<close>

theorem fixed_derivation_path:
  assumes "fst (GenerateNewWallet P src) = Inr w
         \<or> fst (GenerateWalletFromMnemonic P m src') = Inr w"
  shows "\<exists>leaf. leaf_key_at P (Mnemonic w)
              [HardenedKeyStart + 44, HardenedKeyStart + 2, HardenedKeyStart + 0, 0, 0]
            = Inr leaf
         \<and> depth leaf = 5
         \<and> w = wallet_of_leaf P (Mnemonic w) leaf
         \<and> DerivationPath w = ''m/44'/2'/0'/0/0''
         \<and> map hardened
              [HardenedKeyStart + 44, HardenedKeyStart + 2, HardenedKeyStart + 0, 0, 0]
            = [True, True, True, False, False]"
proof -
  from assms have "walk P (Mnemonic w) = Inr w"
    using new_Inr [of P src w] restore_Inr [of P m src' w] by auto
  from walk_Inr [OF this] obtain leaf where
    l: "leaf_key_at P (Mnemonic w) wallet_path = Inr leaf"
    and w: "w = wallet_of_leaf P (Mnemonic w) leaf"
    by blast
  have "depth leaf = 5"
    using leaf_key_at_depth [OF l] by (simp add: wallet_path_def)
  moreover have "DerivationPath w = ''m/44'/2'/0'/0/0''"
    by (subst w) (simp add: wallet_of_leaf_def)
  ultimately show ?thesis
    using l w hardened_path by (auto simp: wallet_path_def)
qed

lemma test_leaf:
  "\<exists>leaf. leaf_key_at test_prims m wallet_path = Inr leaf \<and> key leaf = 17"
proof -
  let ?P = test_prims
  obtain k0 where k0: "hdkeychain_NewMaster ?P (bip39_NewSeed ?P m []) KernelcoinParams = Inr k0"
    and "key k0 = 8"
    using test_NewMaster [of m] by simp
  moreover obtain k1 where k1: "Derive ?P k0 (HardenedKeyStart + 44) = Inr k1" and "key k1 = 9"
    using test_Derive [of k0 "HardenedKeyStart + 44"] \<open>key k0 = 8\<close> hardened_path
    by (auto simp: hardened_def)
  moreover obtain k2 where k2: "Derive ?P k1 (HardenedKeyStart + 2) = Inr k2" and "key k2 = 10"
    using test_Derive [of k1 "HardenedKeyStart + 2"] \<open>key k1 = 9\<close> hardened_path
    by (auto simp: hardened_def)
  moreover obtain k3 where k3: "Derive ?P k2 (HardenedKeyStart + 0) = Inr k3" and "key k3 = 11"
    using test_Derive [of k2 "HardenedKeyStart + 0"] \<open>key k2 = 10\<close> hardened_path
    by (auto simp: hardened_def)
  moreover obtain k4 where k4: "Derive ?P k3 0 = Inr k4" and "key k4 = 14"
    using test_Derive [of k3 0] \<open>key k3 = 11\<close> hardened_path
    by (auto simp: hardened_def)
  moreover obtain k5 where k5: "Derive ?P k4 0 = Inr k5" and "key k5 = 17"
    using test_Derive [of k4 0] \<open>key k4 = 14\<close> hardened_path
    by (auto simp: hardened_def)
  ultimately show ?thesis
    by (simp add: leaf_key_at_def wallet_path_def)
qed

lemma test_walk: "\<exists>w. walk test_prims m = Inr w"
proof -
  obtain leaf where "leaf_key_at test_prims m wallet_path = Inr leaf"
    using test_leaf by blast
  from walk_ok [OF this] show ?thesis
    by (simp add: test_prims_def)
qed

lemma test_valid: "bip39_IsMnemonicValid test_prims test_mnemonic"
  by (rule mnemonic_roundtrip [OF test_prims_ok test_NewMnemonic])

lemma test_runs:
  "\<exists>w. fst (GenerateNewWallet test_prims test_entropy) = Inr w
     \<and> fst (GenerateWalletFromMnemonic test_prims test_mnemonic src) = Inr w"
proof -
  have "bip39_NewEntropy 128 test_entropy = (Inr test_entropy, [])"
    by (simp add: bip39_NewEntropy_def rand_Read_def test_entropy_def)
  then show ?thesis
    using test_walk [of test_mnemonic] test_NewMnemonic test_valid
    by (auto simp: new_walk restore_walk attempt_def)
qed

theorem fixed_derivation_path_witness:
  "\<exists>w. fst (GenerateNewWallet test_prims test_entropy) = Inr w
     \<and> fst (GenerateWalletFromMnemonic test_prims test_mnemonic []) = Inr w
     \<and> (\<exists>leaf. leaf_key_at test_prims (Mnemonic w)
              [HardenedKeyStart + 44, HardenedKeyStart + 2, HardenedKeyStart + 0, 0, 0]
            = Inr leaf
         \<and> depth leaf = 5
         \<and> w = wallet_of_leaf test_prims (Mnemonic w) leaf
         \<and> DerivationPath w = ''m/44'/2'/0'/0/0'')"
proof -
  obtain w where w: "fst (GenerateNewWallet test_prims test_entropy) = Inr w"
    "fst (GenerateWalletFromMnemonic test_prims test_mnemonic []) = Inr w"
    using test_runs by blast
  from fixed_derivation_path [OF disjI1, OF w(1)] w show ?thesis by blast
qed

lemma test_derive_path:
  "key k + 3 * length is < 1000 \<Longrightarrow>
   \<exists>leaf. derive_path test_prims k is = Inr leaf
         \<and> key leaf = key k + sum_list (map (\<lambda>i. if HardenedKeyStart \<le> i then 1 else 3) is)"
proof (induction "is" arbitrary: k)
  case Nil
  then show ?case by simp
next
  case (Cons i "is")
  from Cons.prems have "key k < 1000" by simp
  from test_Derive [OF this, of i] obtain c where
    c: "Derive test_prims k i = Inr c"
    and kc: "key c = key k + (if HardenedKeyStart \<le> i then 1 else 3)"
    by blast
  from kc Cons.prems have "key c + 3 * length is < 1000" by simp
  from Cons.IH [OF this] c kc show ?case by auto
qed

lemma test_leaf_at:
  "\<exists>leaf. leaf_key_at test_prims m
            [HardenedKeyStart + 44, HardenedKeyStart + 2, HardenedKeyStart + 0, a, b] = Inr leaf
         \<and> key leaf = 11 + (if HardenedKeyStart \<le> a then 1 else 3)
                        + (if HardenedKeyStart \<le> b then 1 else 3)"
proof -
  let ?k0 = "\<lparr> version = [0x77, 0x88, 0xad, 0xe4], key = 8, chainCode = replicate 32 12,
             depth = 0, parentFP = [0, 0, 0, 0], childNum = 0 \<rparr> :: ExtendedKey"
  have "key ?k0 + 3 * length
      [HardenedKeyStart + 44, HardenedKeyStart + 2, HardenedKeyStart + 0, a, b] < 1000"
    by simp
  from test_derive_path [OF this] show ?thesis
    using hardened_path by (auto simp: leaf_key_at_def test_NewMaster hardened_def)
qed

lemma hex_key_17:
  "hex_EncodeToString (nat_to_bytes 32 17)
     = ''0000000000000000000000000000000000000000000000000000000000000011''"
  by (simp add: hex_EncodeToString_def nat_to_bytes_def hextable_def upt_conv_Cons)

lemma hex_key_13:
  "hex_EncodeToString (nat_to_bytes 32 13)
     = ''000000000000000000000000000000000000000000000000000000000000000d''"
  by (simp add: hex_EncodeToString_def nat_to_bytes_def hextable_def upt_conv_Cons)

lemma test_restore_key:
  "map_sum id PrivateKeyHex (fst (GenerateWalletFromMnemonic test_prims test_mnemonic src))
     = Inr ''0000000000000000000000000000000000000000000000000000000000000011''"
proof -
  obtain leaf where l: "leaf_key_at test_prims test_mnemonic wallet_path = Inr leaf"
    and k: "key leaf = 17"
    using test_leaf_at [of test_mnemonic 0 0]
    by (auto simp: wallet_path_def HardenedKeyStart_def)
  have "walk test_prims test_mnemonic = Inr (wallet_of_leaf test_prims test_mnemonic leaf)"
    by (rule walk_ok [OF l]) (simp add: test_prims_def)
  then show ?thesis
    using test_valid by (simp add: restore_walk wallet_of_leaf_def k hex_key_17)
qed

text \<open>
  Claim C7, as stated, fails: the claim says that the change and address-index
  levels are derived hardened. On the test primitives the wallet restored from
  the test mnemonic has the private key \<open>0x11\<close>, the key of the path
  \<open>m/44'/2'/0'/0/0\<close>, while the path with the last two levels hardened,
  \<open>m/44'/2'/0'/0'/0'\<close>, leads to the key \<open>0x0d\<close>.
\<close>

theorem last_levels_hardened_counterexample:
  "map_sum id PrivateKeyHex (fst (GenerateWalletFromMnemonic test_prims test_mnemonic []))
     = Inr ''0000000000000000000000000000000000000000000000000000000000000011''
   \<and> map_sum id (\<lambda>leaf. PrivateKeyHex (wallet_of_leaf test_prims test_mnemonic leaf))
        (leaf_key_at test_prims test_mnemonic
           [HardenedKeyStart + 44, HardenedKeyStart + 2, HardenedKeyStart + 0,
            HardenedKeyStart + 0, HardenedKeyStart + 0])
     = Inr ''000000000000000000000000000000000000000000000000000000000000000d''
   \<and> hardened (HardenedKeyStart + 0)"
proof -
  obtain leaf where "leaf_key_at test_prims test_mnemonic
           [HardenedKeyStart + 44, HardenedKeyStart + 2, HardenedKeyStart + 0,
            HardenedKeyStart + 0, HardenedKeyStart + 0] = Inr leaf" and "key leaf = 13"
    using test_leaf_at [of test_mnemonic "HardenedKeyStart + 0" "HardenedKeyStart + 0"]
    by auto
  then show ?thesis
    using test_restore_key [of "[]"] hardened_path(3)
    by (simp add: wallet_of_leaf_def hex_key_13)
qed

lemma leaf_key_at_last_two:
  assumes "leaf_key_at P m [i1, i2, i3, i4, i5] = Inr leaf"
  shows "\<exists>account change. leaf_key_at P m [i1, i2, i3] = Inr account
           \<and> Derive P account i4 = Inr change \<and> Derive P change i5 = Inr leaf"
  using assms by (auto simp: leaf_key_at_def split: sum.splits)

lemma Derive_not_hardened:
  assumes "Derive P k i = Inr c" and "\<not> hardened i"
  shows "chainCode c
       = drop 32 (hmac_sha512 P (chainCode k) (secp256k1_pubkey P (key k) @ nat_to_bytes 4 (unat i)))"
    and "key c
       = (bytes_to_nat (take 32 (hmac_sha512 P (chainCode k)
            (secp256k1_pubkey P (key k) @ nat_to_bytes 4 (unat i)))) + key k) mod secp256k1_N"
  using assms by (auto simp: Derive_def Let_def hardened_def split: if_splits)

text \<open>
  Claim C7, amended. Whenever either entry point returns a wallet, the change
  key and the address key are derived with the index 0, which is not hardened:
  the keyed hash of each of the two steps runs over the parent's compressed
  public key followed by the four zero bytes of the index. Only the purpose,
  coin-type and account levels are hardened.
\<close>

theorem last_levels_not_hardened:
  assumes "fst (GenerateNewWallet P src) = Inr w
         \<or> fst (GenerateWalletFromMnemonic P m src') = Inr w"
  shows "\<exists>account change addressKey.
           leaf_key_at P (Mnemonic w)
             [HardenedKeyStart + 44, HardenedKeyStart + 2, HardenedKeyStart + 0] = Inr account
         \<and> Derive P account 0 = Inr change
         \<and> Derive P change 0 = Inr addressKey
         \<and> \<not> hardened 0
         \<and> chainCode change = drop 32 (hmac_sha512 P (chainCode account)
               (secp256k1_pubkey P (key account) @ [0, 0, 0, 0]))
         \<and> chainCode addressKey = drop 32 (hmac_sha512 P (chainCode change)
               (secp256k1_pubkey P (key change) @ [0, 0, 0, 0]))
         \<and> w = wallet_of_leaf P (Mnemonic w) addressKey"
proof -
  from assms have "walk P (Mnemonic w) = Inr w"
    using new_Inr [of P src w] restore_Inr [of P m src' w] by auto
  from walk_Inr [OF this] obtain leaf where
    l: "leaf_key_at P (Mnemonic w) wallet_path = Inr leaf"
    and w: "w = wallet_of_leaf P (Mnemonic w) leaf"
    by blast
  from leaf_key_at_last_two [OF l [unfolded wallet_path_def]] obtain account change where
    a: "leaf_key_at P (Mnemonic w)
          [HardenedKeyStart + 44, HardenedKeyStart + 2, HardenedKeyStart + 0] = Inr account"
    and c: "Derive P account 0 = Inr change" and k: "Derive P change 0 = Inr leaf"
    by blast
  have z: "nat_to_bytes 4 0 = [0, 0, 0, 0]"
    by (simp add: nat_to_bytes_def upt_conv_Cons)
  show ?thesis
    using a c k w hardened_path(4)
      Derive_not_hardened(1) [OF c hardened_path(4)]
      Derive_not_hardened(1) [OF k hardened_path(4)]
    by (auto simp: z)
qed

theorem last_levels_not_hardened_witness:
  "\<exists>w. fst (GenerateWalletFromMnemonic test_prims test_mnemonic []) = Inr w
     \<and> (\<exists>account change addressKey.
           leaf_key_at test_prims (Mnemonic w)
             [HardenedKeyStart + 44, HardenedKeyStart + 2, HardenedKeyStart + 0] = Inr account
         \<and> Derive test_prims account 0 = Inr change
         \<and> Derive test_prims change 0 = Inr addressKey
         \<and> \<not> hardened 0
         \<and> w = wallet_of_leaf test_prims (Mnemonic w) addressKey)"
proof -
  obtain w where w: "fst (GenerateWalletFromMnemonic test_prims test_mnemonic []) = Inr w"
    using test_runs by blast
  from last_levels_not_hardened [OF disjI2, OF w] w show ?thesis by blast
qed

lemma attempt_not_plain: "attempt msg r rest = Inl (Errorf msg' None) \<Longrightarrow>
   (\<exists>v. r = Inr v \<and> rest v = Inl (Errorf msg' None))"
  by (auto simp: attempt_def split: sum.splits)























text \<open>
  Claim C9. A wallet returned by \<open>GenerateNewWallet\<close> is returned again, equal
  in every field, by \<open>GenerateWalletFromMnemonic\<close> on its mnemonic, whatever the
  state of the random source then is.
\<close>

theorem new_then_restore:
  assumes "prims_ok P" and "GenerateNewWallet P src = (Inr w, src')"
  shows "GenerateWalletFromMnemonic P (Mnemonic w) src'' = (Inr w, src'')"
proof -
  from assms(2) have "fst (GenerateNewWallet P src) = Inr w" by simp
  from new_Inr [OF this] obtain entropy where
    n: "bip39_NewMnemonic P entropy = Inr (Mnemonic w)"
    and k: "walk P (Mnemonic w) = Inr w"
    by blast
  from mnemonic_roundtrip [OF assms(1) n] k show ?thesis
    by (simp add: restore_walk)
qed

theorem new_then_restore_witness:
  "prims_ok test_prims
   \<and> (\<exists>w. GenerateNewWallet test_prims (test_entropy @ [1, 2, 3]) = (Inr w, [1, 2, 3])
        \<and> Mnemonic w = test_mnemonic
        \<and> GenerateWalletFromMnemonic test_prims test_mnemonic [] = (Inr w, []))"
proof -
  have e: "bip39_NewEntropy 128 (test_entropy @ [1, 2, 3]) = (Inr test_entropy, [1, 2, 3])"
    by (simp add: bip39_NewEntropy_def rand_Read_def test_entropy_def)
  obtain w where k: "walk test_prims test_mnemonic = Inr w"
    using test_walk by blast
  have g: "GenerateNewWallet test_prims (test_entropy @ [1, 2, 3]) = (Inr w, [1, 2, 3])"
    using e k test_NewMnemonic by (simp add: new_walk attempt_def)
  have m: "Mnemonic w = test_mnemonic"
    using walk_Inr [OF k] by (auto simp: Mnemonic_wallet_of_leaf)
  from new_then_restore [OF test_prims_ok g, of "[]"] g m test_prims_ok show ?thesis
    by auto
qed

end
